theory Spec2Isabelle
  imports Main "HOL-Library.Word" "HOL-Library.Sublist"
begin

unbundle bit_operations_syntax

section \<open>Data model of the decoder (decode.go)\<close>

type_synonym byte = "8 word"

text \<open>
  A Go byte slice is a window on a backing array: \<open>bytes\<close> are the elements below
  \<open>len\<close>, \<open>spare\<close> the elements of the backing array between \<open>len\<close> and
  \<open>cap\<close>. Indexing is checked against \<open>len\<close>, a slice expression
  \<open>s[i:j]\<close> against \<open>cap\<close>, and \<open>copy\<close> moves
  \<open>min (len dst) (len src)\<close> elements.
\<close>

record slice =
  bytes :: "byte list"
  spare :: "byte list"

definition slice_len :: "slice \<Rightarrow> nat" where
  "slice_len s = length (bytes s)"

definition slice_cap :: "slice \<Rightarrow> nat" where
  "slice_cap s = length (bytes s) + length (spare s)"

text \<open>\<open>s[i]\<close>: \<open>None\<close> is the run-time panic "index out of range".\<close>

definition slice_index :: "slice \<Rightarrow> nat \<Rightarrow> byte option" where
  "slice_index s i = (if i < slice_len s then Some (bytes s ! i) else None)"

text \<open>\<open>s[i:j]\<close>: \<open>None\<close> is the run-time panic "slice bounds out of range".\<close>

definition slice_expr :: "slice \<Rightarrow> nat \<Rightarrow> nat \<Rightarrow> slice option" where
  "slice_expr s i j =
     (if i \<le> j \<and> j \<le> slice_cap s
      then Some \<lparr>bytes = take (j - i) (drop i (bytes s @ spare s)),
                 spare = drop j (bytes s @ spare s)\<rparr>
      else None)"

text \<open>\<open>make([]byte, n)\<close> and \<open>copy(buf, input)\<close> (the new content of \<open>buf\<close>).\<close>

definition make_bytes :: "nat \<Rightarrow> byte list" where
  "make_bytes n = replicate n 0"

definition copy_bytes :: "byte list \<Rightarrow> slice \<Rightarrow> byte list" where
  "copy_bytes buf input =
     take (length buf) (bytes input) @ drop (slice_len input) buf"

text \<open>
  The content of a \<open>reflect.Value\<close> slot, by kind. The setters of package reflect
  panic on a slot of another kind.
\<close>

datatype val =
    VBool bool
  | VUint64 "64 word"
  | VBytes "byte list"
  | VSlice "val list"
  | VStruct "val list"

definition SetBool :: "val \<Rightarrow> bool \<Rightarrow> val option" where
  "SetBool v b = (case v of VBool _ \<Rightarrow> Some (VBool b) | _ \<Rightarrow> None)"

definition SetUint :: "val \<Rightarrow> 64 word \<Rightarrow> val option" where
  "SetUint v x = (case v of VUint64 _ \<Rightarrow> Some (VUint64 x) | _ \<Rightarrow> None)"

definition SetBytes :: "val \<Rightarrow> byte list \<Rightarrow> val option" where
  "SetBytes v bs = (case v of VBytes _ \<Rightarrow> Some (VBytes bs) | _ \<Rightarrow> None)"

text \<open>
  The errors the decoders build with \<open>fmt.Errorf\<close> and \<open>errors.New\<close>, one
  constructor for each message, and the two ways a decoder can fail: a run-time panic or
  a returned error.
\<close>

datatype err =
    ExpectBool byte
  | ElementFailed err
  | InputTooLong
  | OffsetOutOfBounds
  | FieldFailed err
  | InputTooShort

datatype 'e fault = Panic | Err 'e

text \<open>
  A decoder takes the input and the present content of the target slot, and returns the
  number it reports together with the new content of the slot.
\<close>

type_synonym decoder = "slice \<Rightarrow> val \<Rightarrow> err fault + nat \<times> val"

section \<open>Basic decoders\<close>

definition decodeBool :: decoder where
  "decodeBool input val =
     (case slice_index input 0 of
        None \<Rightarrow> Inl Panic
      | Some v \<Rightarrow>
          if v = 0 then
            (case SetBool val False of None \<Rightarrow> Inl Panic | Some val' \<Rightarrow> Inr (1, val'))
          else if v = 1 then
            (case SetBool val True of None \<Rightarrow> Inl Panic | Some val' \<Rightarrow> Inr (1, val'))
          else Inl (Err (ExpectBool v)))"

text \<open>
  \<open>binary.LittleEndian.Uint64\<close> of the standard library: it reads \<open>b[7]\<close> first
  (a panic on a shorter slice) and combines the eight bytes with shifts and bitwise or.
\<close>

definition LittleEndian_Uint64 :: "byte list \<Rightarrow> 64 word option" where
  "LittleEndian_Uint64 b =
     (if length b < 8 then None
      else Some (ucast (b ! 0) OR push_bit 8 (ucast (b ! 1)) OR push_bit 16 (ucast (b ! 2))
        OR push_bit 24 (ucast (b ! 3)) OR push_bit 32 (ucast (b ! 4))
        OR push_bit 40 (ucast (b ! 5)) OR push_bit 48 (ucast (b ! 6))
        OR push_bit 56 (ucast (b ! 7))))"

definition decodeUint64 :: decoder where
  "decodeUint64 input val =
     (let buf = copy_bytes (make_bytes 8) input in
      case LittleEndian_Uint64 buf of
        None \<Rightarrow> Inl Panic
      | Some x \<Rightarrow> (case SetUint val x of None \<Rightarrow> Inl Panic | Some val' \<Rightarrow> Inr (8, val')))"

definition decodeByteSlice :: decoder where
  "decodeByteSlice input val =
     (case SetBytes val (bytes input) of
        None \<Rightarrow> Inl Panic
      | Some val' \<Rightarrow> Inr (slice_len input, val'))"

section \<open>The struct decoder\<close>

text \<open>
  A field of \<open>structFields\<close>: its position in the struct and the decoder of its
  type. \<open>basicElementSize\<close> is not part of the sources at hand; the size it returns
  for the field's type is carried with the field as \<open>f_elemSize\<close>.
\<close>

record field =
  f_index :: nat
  f_elemSize :: nat
  f_decoder :: decoder

text \<open>\<open>val.Field(i)\<close> panics on a value that is no struct and on a missing field.\<close>

definition Field :: "val \<Rightarrow> nat \<Rightarrow> val option" where
  "Field v i = (case v of VStruct fs \<Rightarrow> (if i < length fs then Some (fs ! i) else None)
                | _ \<Rightarrow> None)"

definition SetField :: "val \<Rightarrow> nat \<Rightarrow> val \<Rightarrow> val" where
  "SetField v i x = (case v of VStruct fs \<Rightarrow> VStruct (fs[i := x]) | _ \<Rightarrow> v)"

text \<open>
  The loop over \<open>fields\<close> (here \<open>flds\<close>), with its variables \<open>i\<close> and
  \<open>offsetIndex\<close>; it returns both together with the struct as written so far.
\<close>

function struct_loop ::
  "field list \<Rightarrow> slice \<Rightarrow> val \<Rightarrow> nat \<Rightarrow> nat \<Rightarrow> err fault + nat \<times> nat \<times> val" where
  "struct_loop flds input val i offsetIndex =
     (if i < length flds then
        (let f = flds ! i in
         case Field val (f_index f) of
           None \<Rightarrow> Inl Panic
         | Some slot \<Rightarrow>
            (case slice_expr input offsetIndex (offsetIndex + f_elemSize f) of
               None \<Rightarrow> Inl Panic
             | Some sub \<Rightarrow>
                (case f_decoder f sub slot of
                   Inl Panic \<Rightarrow> Inl Panic
                 | Inl (Err e) \<Rightarrow> Inl (Err (FieldFailed e))
                 | Inr (fieldDecodeSize, slot') \<Rightarrow>
                     struct_loop flds input (SetField val (f_index f) slot') (i + 1)
                       (offsetIndex + fieldDecodeSize))))
      else Inr (i, offsetIndex, val))"
  by pat_completeness auto
termination
  by (relation "measure (\<lambda>(flds, input, val, i, offsetIndex). length flds - i)") auto

definition makeStructDecoder :: "field list \<Rightarrow> decoder" where
  "makeStructDecoder flds input val =
     (let size = slice_len input in
      if size = 0 then Inr (0, val)
      else
        (case struct_loop flds input val 0 0 of
           Inl e \<Rightarrow> Inl e
         | Inr (i, offsetIndex, val') \<Rightarrow>
             if i < length flds then Inl (Err InputTooShort)
             else Inr (offsetIndex, val')))"

section \<open>The slice decoders\<close>

text \<open>
  \<open>reflect.MakeSlice(val.Type(), size, size)\<close>, \<open>reflect.Copy(newVal, val)\<close> and
  \<open>val.Set(newVal)\<close>: the slot receives a slice of \<open>n\<close> elements, the first
  ones copied from its old content, the others the zero value of the element type. All
  three panic on a slot that holds no slice.
\<close>

definition MakeSlice_Copy_Set :: "val \<Rightarrow> nat \<Rightarrow> val \<Rightarrow> val option" where
  "MakeSlice_Copy_Set val n zero =
     (case val of
        VSlice xs \<Rightarrow> Some (VSlice (take n xs @ replicate (n - length xs) zero))
      | _ \<Rightarrow> None)"

text \<open>\<open>val.Index(i)\<close> panics on an index out of range.\<close>

definition Index :: "val \<Rightarrow> nat \<Rightarrow> val option" where
  "Index v i = (case v of VSlice xs \<Rightarrow> (if i < length xs then Some (xs ! i) else None)
                | _ \<Rightarrow> None)"

definition SetIndex :: "val \<Rightarrow> nat \<Rightarrow> val \<Rightarrow> val" where
  "SetIndex v i x = (case v of VSlice xs \<Rightarrow> VSlice (xs[i := x]) | _ \<Rightarrow> v)"

text \<open>
  The loop of \<open>makeBasicSliceDecoder\<close> with its variables \<open>i\<close>,
  \<open>elementIndex\<close> and \<open>decodeSize\<close>. The slice expression is evaluated before
  \<open>val.Index\<close>. The caller has divided by \<open>elemSize\<close> before the loop, so the
  loop is never entered with \<open>elemSize = 0\<close>.
\<close>

function basic_loop ::
  "nat \<Rightarrow> decoder \<Rightarrow> slice \<Rightarrow> val \<Rightarrow> nat \<Rightarrow> nat \<Rightarrow> nat \<Rightarrow> err fault + nat \<times> val" where
  "basic_loop elemSize dec input val i elementIndex decodeSize =
     (if i < slice_len input then
        (if elemSize = 0 then Inl Panic
         else
           (case slice_expr input i (i + elemSize) of
              None \<Rightarrow> Inl Panic
            | Some sub \<Rightarrow>
               (case Index val elementIndex of
                  None \<Rightarrow> Inl Panic
                | Some slot \<Rightarrow>
                   (case dec sub slot of
                      Inl Panic \<Rightarrow> Inl Panic
                    | Inl (Err e) \<Rightarrow> Inl (Err (ElementFailed e))
                    | Inr (elemDecodeSize, slot') \<Rightarrow>
                        basic_loop elemSize dec input (SetIndex val elementIndex slot')
                          (i + elemSize) (elementIndex + 1) (decodeSize + elemDecodeSize)))))
      else Inr (decodeSize, val))"
  by pat_completeness auto
termination
  by (relation "measure (\<lambda>(elemSize, dec, input, val, i, elementIndex, decodeSize).
        slice_len input - i)") auto

text \<open>
  \<open>basicElementSize\<close> is not part of the sources at hand: the size of an element is
  the parameter \<open>elemSize\<close>, the zero value of the element type the parameter
  \<open>zero\<close>, and \<open>dec\<close> is the decoder of the element type. The division
  \<open>len(input) / elemSize\<close> panics on a divisor 0.
\<close>

definition makeBasicSliceDecoder :: "nat \<Rightarrow> val \<Rightarrow> decoder \<Rightarrow> decoder" where
  "makeBasicSliceDecoder elemSize zero dec input val =
     (if elemSize = 0 then Inl Panic
      else
        (let size = slice_len input div elemSize in
         case MakeSlice_Copy_Set val size zero of
           None \<Rightarrow> Inl Panic
         | Some val1 \<Rightarrow>
            (case basic_loop elemSize dec input val1 0 0 0 of
               Inl e \<Rightarrow> Inl e
             | Inr (decodeSize, val2) \<Rightarrow>
                 if decodeSize < size then Inl (Err InputTooLong)
                 else Inr (size, val2))))"

text \<open>
  \<open>makeCompositeSliceDecoder\<close> (decode.go, lines 161 to 192) has no embedding here: it
  is not valid Go. It passes the \<open>uint64\<close> variable \<open>firstOffset\<close> where the
  element decoder takes a \<open>reflect.Value\<close>, compares the \<open>uint64\<close>
  \<open>currentOffset\<close> with the \<open>int\<close> \<open>len(input)\<close>, and declares
  \<open>nextIndex\<close> and \<open>nextOffset\<close> without using them, so it has no run-time
  behaviour to model.
\<close>

section \<open>The entry point\<close>

text \<open>
  The types the decoder is asked for, and the \<open>reflect.Type\<close> of the target of
  \<open>Decode\<close>: a type of the list, or a pointer to one.
\<close>

datatype gotype = TBool | TUint64 | TBytes | TSlice gotype | TStruct "gotype list"

datatype rtype = Plain gotype | PtrTo gotype

text \<open>
  The \<open>val interface{}\<close> handed to \<open>Decode\<close>: the nil interface, a value that is
  no pointer, or a pointer to a slot of some type, which is nil (\<open>None\<close>) or points to
  the slot's content.
\<close>

datatype target = NilInterface | Value gotype val | Pointer gotype "val option"

datatype msg =
    CannotDecodeIntoNil
  | CanOnlyDecodeIntoPointer
  | CannotOutputToPointerOfNil
  | UtilsFailed string
  | DecoderFailed err

record decodeError =
  err_msg :: msg
  err_typ :: "rtype option"

definition newDecodeError :: "msg \<Rightarrow> rtype option \<Rightarrow> decodeError" where
  "newDecodeError m t = \<lparr>err_msg = m, err_typ = t\<rparr>"

text \<open>
  \<open>cachedSSZUtils\<close> is not part of the sources at hand: it is a parameter that gives
  an error or the decoder for a type. \<open>Decode\<close> returns the new content of the slot
  the pointer refers to, or the error.
\<close>

definition Decode ::
  "(gotype \<Rightarrow> string + decoder) \<Rightarrow> slice \<Rightarrow> target \<Rightarrow> decodeError fault + val" where
  "Decode cachedSSZUtils input val =
     (case val of
        NilInterface \<Rightarrow> Inl (Err (newDecodeError CannotDecodeIntoNil None))
      | Value t v \<Rightarrow> Inl (Err (newDecodeError CanOnlyDecodeIntoPointer (Some (Plain t))))
      | Pointer t None \<Rightarrow>
          Inl (Err (newDecodeError CannotOutputToPointerOfNil (Some (PtrTo t))))
      | Pointer t (Some slot) \<Rightarrow>
         (case cachedSSZUtils t of
            Inl e \<Rightarrow> Inl (Err (newDecodeError (UtilsFailed e) (Some (Plain t))))
          | Inr dec \<Rightarrow>
             (case dec input slot of
                Inl Panic \<Rightarrow> Inl Panic
              | Inl (Err e) \<Rightarrow> Inl (Err (newDecodeError (DecoderFailed e) (Some (Plain t))))
              | Inr (n, slot') \<Rightarrow> Inr slot')))"

section \<open>Little-endian values\<close>

text \<open>The number a byte string denotes when read little-endian.\<close>

fun le_nat :: "byte list \<Rightarrow> nat" where
  "le_nat [] = 0"
| "le_nat (b # bs) = unat b + 256 * le_nat bs"

text \<open>
  Modelled from the spec: the encoder is not part of the sources at hand. Section 3 gives
  the encoding of a Uint64 as little-endian over exactly 8 bytes, and scenario S1 gives
  \<open>encode(0x0102030405060708, Uint64) = [08,07,06,05,04,03,02,01]\<close>.
\<close>

definition encode_uint64 :: "64 word \<Rightarrow> byte list" where
  "encode_uint64 v =
     [ucast v, ucast (drop_bit 8 v), ucast (drop_bit 16 v), ucast (drop_bit 24 v),
      ucast (drop_bit 32 v), ucast (drop_bit 40 v), ucast (drop_bit 48 v),
      ucast (drop_bit 56 v)]"

text \<open>The \<open>k\<close> low bytes of a word, lowest first.\<close>

fun low_bytes :: "nat \<Rightarrow> 64 word \<Rightarrow> byte list" where
  "low_bytes 0 w = []"
| "low_bytes (Suc k) w = ucast w # low_bytes k (drop_bit 8 w)"

section \<open>Chunks and Merkleization (package exp)\<close>

text \<open>
  Chunks and byte runs are taken by value, as lists of bytes. \<open>hash\<close> is SHA-256 of
  an external package: it is the parameter \<open>H\<close>.
\<close>

definition BytesPerChunk :: nat where
  "BytesPerChunk = 32"

type_synonym hasher = "byte list \<Rightarrow> byte list"

text \<open>The one error of this package: "merkleizing list that is too large, over limit".\<close>

datatype herr = OverLimit

subsection \<open>pack\<close>

text \<open>
  The first loop of \<open>pack\<close>: \<open>areAllEmpty\<close> stays true until an item differs from
  the empty byte string.
\<close>

fun areAllEmpty :: "byte list list \<Rightarrow> bool" where
  "areAllEmpty [] = True"
| "areAllEmpty (item # rest) = (if item \<noteq> [] then False else areAllEmpty rest)"

text \<open>The loop that appends every item to \<open>orderedItems\<close>.\<close>

fun flatten :: "byte list \<Rightarrow> byte list list \<Rightarrow> byte list" where
  "flatten orderedItems [] = orderedItems"
| "flatten orderedItems (item # rest) = flatten (orderedItems @ item) rest"

text \<open>
  The loop that cuts \<open>orderedItems\<close> into chunks: \<open>orderedItems[i:j]\<close> with
  \<open>j = i + BytesPerChunk\<close>, or \<open>numItems\<close> when that is smaller.
\<close>

function chunk_loop :: "byte list \<Rightarrow> nat \<Rightarrow> byte list list \<Rightarrow> byte list list" where
  "chunk_loop orderedItems i chunks =
     (if i < length orderedItems then
        chunk_loop orderedItems (i + BytesPerChunk)
          (chunks @ [take ((if i + BytesPerChunk > length orderedItems
                            then length orderedItems else i + BytesPerChunk) - i)
                       (drop i orderedItems)])
      else chunks)"
  by pat_completeness auto
termination
  by (relation "measure (\<lambda>(orderedItems, i, chunks). length orderedItems - i)")
    (auto simp: BytesPerChunk_def)

text \<open>The loop that appends zero bytes to the last chunk.\<close>

function pad_loop :: "byte list \<Rightarrow> byte list" where
  "pad_loop lastChunk =
     (if length lastChunk < BytesPerChunk then pad_loop (lastChunk @ [0]) else lastChunk)"
  by pat_completeness auto
termination
  by (relation "measure (\<lambda>lastChunk. BytesPerChunk - length lastChunk)") auto

text \<open>
  \<open>pack\<close> returns its chunks with a nil error on every path; \<open>Inl Panic\<close> is the
  index \<open>chunks[len(chunks)-1]\<close> on an empty list of chunks.
\<close>

definition pack :: "byte list list \<Rightarrow> herr fault + byte list list" where
  "pack serializedItems =
     (if length serializedItems = 0 \<or> areAllEmpty serializedItems
      then Inr [make_bytes BytesPerChunk]
      else if length (serializedItems ! 0) = BytesPerChunk then Inr serializedItems
      else
        (let orderedItems = flatten [] serializedItems;
             chunks = chunk_loop orderedItems 0 []
         in if chunks = [] then Inl Panic
            else Inr (chunks[length chunks - 1 := pad_loop (chunks ! (length chunks - 1))])))"

declare chunk_loop.simps [simp del] pad_loop.simps [simp del]

text \<open>
  What the spec says of \<open>pack\<close> (section 4.4), for comparison with the code: flatten
  the byte runs and partition the result into 32-byte chunks, the final chunk
  right-padded with zeros; the empty input gives a single all-zero chunk.
\<close>

function partition32 :: "byte list \<Rightarrow> byte list list" where
  "partition32 bs =
     (if length bs \<le> 32 then [bs @ replicate (32 - length bs) 0]
      else take 32 bs # partition32 (drop 32 bs))"
  by pat_completeness auto
termination
  by (relation "measure length") auto

declare partition32.simps [simp del]

definition pack_spec :: "byte list list \<Rightarrow> byte list list" where
  "pack_spec items = partition32 (concat items)"

subsection \<open>merkleize\<close>

definition isPowerOf2 :: "int \<Rightarrow> bool" where
  "isPowerOf2 n = (n \<noteq> 0 \<and> (n AND (n - 1)) = 0)"

lemma isPowerOf2_exp: "isPowerOf2 (2 ^ k)"
proof -
  have "(2::int) ^ k AND (2 ^ k - 1) = take_bit k (2 ^ k)"
    by (simp add: take_bit_eq_mask mask_eq_exp_minus_1)
  then show ?thesis by (simp add: isPowerOf2_def)
qed

lemma next_power_exists: "\<exists>p. n \<le> p \<and> isPowerOf2 (int p)"
proof
  have "n < 2 ^ n" by simp
  moreover have "isPowerOf2 (int (2 ^ n))" using isPowerOf2_exp[of n] by simp
  ultimately show "n \<le> 2 ^ n \<and> isPowerOf2 (int (2 ^ n))" by simp
qed

text \<open>
  The least power of two from \<open>n\<close> on: a measure for the loop that appends zero chunks
  until the number of chunks is a power of two.
\<close>

definition next_power :: "nat \<Rightarrow> nat" where
  "next_power n = (LEAST p. n \<le> p \<and> isPowerOf2 (int p))"

lemma next_power_step:
  assumes "\<not> isPowerOf2 (int n)"
  shows "next_power (Suc n) - Suc n < next_power n - n"
proof -
  have eq: "(\<lambda>p. n \<le> p \<and> isPowerOf2 (int p)) = (\<lambda>p. Suc n \<le> p \<and> isPowerOf2 (int p))"
    using assms by (auto simp: fun_eq_iff Suc_le_eq le_less)
  then have same: "next_power (Suc n) = next_power n"
    by (simp add: next_power_def)
  have "n \<le> next_power n \<and> isPowerOf2 (int (next_power n))"
    unfolding next_power_def using next_power_exists[of n] by (rule LeastI_ex)
  with assms have "n < next_power n" by (cases "next_power n = n") auto
  with same show ?thesis by simp
qed

function pow2_loop :: "byte list list \<Rightarrow> byte list list" where
  "pow2_loop chunks =
     (if \<not> isPowerOf2 (int (length chunks))
      then pow2_loop (chunks @ [make_bytes BytesPerChunk]) else chunks)"
  by pat_completeness auto
termination
  by (relation "measure (\<lambda>chunks. next_power (length chunks) - length chunks)")
    (auto simp: next_power_step)

text \<open>
  The inner loop over one layer, two chunks at a time; \<open>hashLayer[i+1]\<close> panics on a
  layer of odd length.
\<close>

function layer_loop ::
  "hasher \<Rightarrow> byte list list \<Rightarrow> nat \<Rightarrow> byte list list \<Rightarrow> herr fault + byte list list" where
  "layer_loop H hashLayer i layer =
     (if i < length hashLayer then
        (if i + 1 < length hashLayer
         then layer_loop H hashLayer (i + 2) (layer @ [H (hashLayer ! i @ hashLayer ! (i + 1))])
         else Inl Panic)
      else Inr layer)"
  by pat_completeness auto
termination
  by (relation "measure (\<lambda>(H, hashLayer, i, layer). length hashLayer - i)") auto

declare layer_loop.simps [simp del]

lemma layer_loop_length:
  "layer_loop H hashLayer i acc = Inr layer \<Longrightarrow>
     2 * length layer = 2 * length acc + (length hashLayer - i)"
proof (induction H hashLayer i acc rule: layer_loop.induct)
  case (1 H hashLayer i acc)
  show ?case
  proof (cases "i < length hashLayer")
    case False
    with "1.prems" show ?thesis by (simp add: layer_loop.simps)
  next
    case True
    show ?thesis
    proof (cases "i + 1 < length hashLayer")
      case False
      with True "1.prems" show ?thesis by (simp add: layer_loop.simps)
    next
      case next_pair: True
      with True "1.prems"
      have "layer_loop H hashLayer (i + 2) (acc @ [H (hashLayer ! i @ hashLayer ! (i + 1))])
              = Inr layer"
        by (simp add: layer_loop.simps)
      from "1.IH"[OF True next_pair this] next_pair show ?thesis by simp
    qed
  qed
qed

text \<open>The outer loop: layers are hashed until one chunk is left.\<close>

function hash_loop :: "hasher \<Rightarrow> byte list list \<Rightarrow> herr fault + byte list list" where
  "hash_loop H hashLayer =
     (if length hashLayer > 1 then
        (case layer_loop H hashLayer 0 [] of
           Inl e \<Rightarrow> Inl e
         | Inr layer \<Rightarrow> hash_loop H layer)
      else Inr hashLayer)"
  by pat_completeness auto
termination
proof (relation "measure (\<lambda>(H, hashLayer). length hashLayer)")
  show "wf (measure (\<lambda>(H :: hasher, hashLayer :: byte list list). length hashLayer))"
    by simp
next
  fix H :: hasher and hashLayer layer :: "byte list list"
  assume "1 < length hashLayer" and "layer_loop H hashLayer 0 [] = Inr layer"
  then show "((H, layer), (H, hashLayer)) \<in> measure (\<lambda>(H, hashLayer). length hashLayer)"
    using layer_loop_length[of H hashLayer 0 "[]" layer] by simp
qed

declare pow2_loop.simps [simp del] hash_loop.simps [simp del]

text \<open>\<open>var root [32]byte; copy(root[:], c)\<close>: the content of \<open>root\<close>.\<close>

definition copy_root :: "byte list \<Rightarrow> byte list" where
  "copy_root c = take 32 c @ replicate (32 - length c) 0"

definition merkleize :: "hasher \<Rightarrow> byte list list \<Rightarrow> herr fault + byte list" where
  "merkleize H chunks =
     (if length chunks = 1 then Inr (copy_root (chunks ! 0))
      else
        (case hash_loop H (pow2_loop chunks) of
           Inl e \<Rightarrow> Inl e
         | Inr hashLayer \<Rightarrow>
            (case hashLayer of [] \<Rightarrow> Inl Panic | c # _ \<Rightarrow> Inr (copy_root c))))"

text \<open>
  \<open>bitwiseMerkleize\<close> checks the count against the limit and hands the rest to
  \<open>merkle.Merkleize\<close> of an external package, here the parameter \<open>Merkleize\<close>: it
  returns a root, or panics (\<open>None\<close>). \<open>leafIndexer\<close> is \<open>chunks[i]\<close>, a panic
  on an index out of range. With the error the code returns the zero root.
\<close>

definition bitwiseMerkleize ::
  "(hasher \<Rightarrow> 64 word \<Rightarrow> 64 word \<Rightarrow> (64 word \<Rightarrow> byte list option) \<Rightarrow> byte list option)
     \<Rightarrow> hasher \<Rightarrow> byte list list \<Rightarrow> 64 word \<Rightarrow> 64 word \<Rightarrow> herr fault + byte list" where
  "bitwiseMerkleize Merkleize H chunks count limit =
     (if count > limit then Inl (Err OverLimit)
      else
        (let leafIndexer =
               (\<lambda>i. if unat i < length chunks then Some (chunks ! unat i) else None)
         in case Merkleize H count limit leafIndexer of
              None \<Rightarrow> Inl Panic
            | Some root \<Rightarrow> Inr root))"

section \<open>Properties of the basic decoders\<close>

text \<open>
  C7: on an input whose first byte is 0 the Boolean decoder yields false, on first byte 1
  it yields true (one byte reported in both cases), and on every other first byte it
  returns the error "expect 0 or 1 for decoding bool", whatever follows the first byte.
\<close>

theorem decodeBool_first_byte:
  "decodeBool \<lparr>bytes = b # rest, spare = sp\<rparr> (VBool old) =
     (if b = 0 then Inr (1, VBool False)
      else if b = 1 then Inr (1, VBool True)
      else Inl (Err (ExpectBool b)))"
  by (simp add: decodeBool_def slice_index_def slice_len_def SetBool_def)


subsection \<open>Uint64\<close>

lemma or_byte_shift:
  "(ucast (b::byte) :: 64 word) OR push_bit 8 w = ucast b + push_bit 8 w"
  by (rule disjunctive_add_eq_or[symmetric])
    (auto simp: bit_eq_iff bit_simps dest: bit_imp_le_length)

lemma or_byte_shift_nat:
  "(ucast (b::byte) :: 64 word) OR push_bit 8 (word_of_nat n) = word_of_nat (unat b + 256 * n)"
  using or_byte_shift[of b "word_of_nat n"] by (simp add: push_bit_eq_mult)

lemma or_of_shifts_le_nat:
  fixes b0 b1 b2 b3 b4 b5 b6 b7 :: byte
  shows "(ucast b0 OR push_bit 8 (ucast b1) OR push_bit 16 (ucast b2)
        OR push_bit 24 (ucast b3) OR push_bit 32 (ucast b4)
        OR push_bit 40 (ucast b5) OR push_bit 48 (ucast b6)
        OR push_bit 56 (ucast b7) :: 64 word) =
     word_of_nat (le_nat [b0, b1, b2, b3, b4, b5, b6, b7])"
proof -
  have "(ucast b0 OR push_bit 8 (ucast b1) OR push_bit 16 (ucast b2)
        OR push_bit 24 (ucast b3) OR push_bit 32 (ucast b4)
        OR push_bit 40 (ucast b5) OR push_bit 48 (ucast b6)
        OR push_bit 56 (ucast b7) :: 64 word) =
     ucast b0 OR push_bit 8 (ucast b1 OR push_bit 8 (ucast b2 OR push_bit 8
       (ucast b3 OR push_bit 8 (ucast b4 OR push_bit 8 (ucast b5 OR push_bit 8
       (ucast b6 OR push_bit 8 (ucast b7 OR push_bit 8 (word_of_nat 0))))))))"
    by (simp add: push_bit_or push_bit_push_bit or.assoc del: push_bit_of_nat)
  also have "\<dots> = word_of_nat (le_nat [b0, b1, b2, b3, b4, b5, b6, b7])"
    unfolding or_byte_shift_nat by simp
  finally show ?thesis .
qed

lemma le_nat_bound: "le_nat bs < 256 ^ length bs"
proof (induction bs)
  case Nil
  show ?case by simp
next
  case (Cons b bs)
  have "unat b < 256" using unsigned_less[of b] by simp
  with Cons show ?case by simp
qed

lemma le_nat_zero_padding: "le_nat (xs @ replicate k 0) = le_nat xs"
proof (induction xs)
  case Nil
  show ?case by (induction k) auto
next
  case (Cons x xs)
  then show ?case by simp
qed

lemma eight_bytes:
  "length bs = 8 \<Longrightarrow> \<exists>b0 b1 b2 b3 b4 b5 b6 b7. bs = [b0, b1, b2, b3, b4, b5, b6, b7]"
  by (auto simp: length_Suc_conv eval_nat_numeral)

text \<open>
  Whatever its length, the input is copied into a zeroed 8-byte buffer first: a longer
  input is cut at 8 bytes, a shorter one is extended with zero bytes.
\<close>

lemma decodeUint64_any_length:
  "decodeUint64 \<lparr>bytes = bs, spare = sp\<rparr> (VUint64 old) =
     Inr (8, VUint64 (word_of_nat (le_nat (take 8 bs))))"
proof -
  let ?buf = "copy_bytes (make_bytes 8) \<lparr>bytes = bs, spare = sp\<rparr>"
  have buf: "?buf = take 8 bs @ replicate (8 - length bs) 0"
    by (simp add: copy_bytes_def make_bytes_def slice_len_def)
  have "length ?buf = 8" unfolding buf by simp
  then obtain b0 b1 b2 b3 b4 b5 b6 b7 where e: "?buf = [b0, b1, b2, b3, b4, b5, b6, b7]"
    using eight_bytes by blast
  have "le_nat ?buf = le_nat (take 8 bs)"
    unfolding buf by (rule le_nat_zero_padding)
  then have v: "le_nat [b0, b1, b2, b3, b4, b5, b6, b7] = le_nat (take 8 bs)"
    using e by simp
  show ?thesis
    unfolding decodeUint64_def Let_def e
    by (simp add: LittleEndian_Uint64_def SetUint_def or_of_shifts_le_nat v del: le_nat.simps)
qed

text \<open>
  C9: decoding 8 bytes as a Uint64 reports 8 bytes and yields the little-endian value of
  those bytes, which is below \<open>2 ^ 64\<close>. The witness is scenario S1: the bytes
  \<open>[08,07,06,05,04,03,02,01]\<close> decode to \<open>0x0102030405060708\<close>.
\<close>

theorem decodeUint64_little_endian:
  assumes "length bs = 8"
  shows "decodeUint64 \<lparr>bytes = bs, spare = sp\<rparr> (VUint64 old) =
           Inr (8, VUint64 (word_of_nat (le_nat bs))) \<and> le_nat bs < 2 ^ 64"
proof
  show "decodeUint64 \<lparr>bytes = bs, spare = sp\<rparr> (VUint64 old) =
          Inr (8, VUint64 (word_of_nat (le_nat bs)))"
    using assms decodeUint64_any_length[of bs sp old] by simp
  show "le_nat bs < 2 ^ 64"
    using le_nat_bound[of bs] assms by simp
qed

theorem decodeUint64_little_endian_witness:
  "length [8, 7, 6, 5, 4, 3, 2, 1 :: byte] = 8 \<and>
   decodeUint64 \<lparr>bytes = [8, 7, 6, 5, 4, 3, 2, 1], spare = []\<rparr> (VUint64 0) =
     Inr (8, VUint64 0x0102030405060708)"
  using decodeUint64_little_endian[of "[8, 7, 6, 5, 4, 3, 2, 1]" "[]" 0] by simp

subsection \<open>Truncated input\<close>

lemma le_nat_low_bytes: "le_nat (low_bytes k w) = unat (take_bit (8 * k) w)"
proof (induction k arbitrary: w)
  case 0
  show ?case by simp
next
  case (Suc k)
  have a: "unat (ucast w :: byte) = unat w mod 256"
    by (simp add: unsigned_ucast_eq take_bit_eq_mod unsigned_take_bit_eq)
  have b: "unat (take_bit (8 * k) (drop_bit 8 w)) = (unat w div 256) mod 2 ^ (8 * k)"
    by (simp only: unsigned_take_bit_eq unat_drop_bit_eq)
      (simp add: take_bit_eq_mod drop_bit_eq_div)
  have c: "unat (take_bit (8 * Suc k) w) = unat w mod (256 * 2 ^ (8 * k))"
    by (simp only: unsigned_take_bit_eq) (simp add: take_bit_eq_mod power_add)
  show ?case
    by (simp only: low_bytes.simps le_nat.simps Suc.IH a b c mod_mult2_eq)
qed

lemma take_encode_uint64: "n \<le> 8 \<Longrightarrow> take n (encode_uint64 v) = low_bytes n v"
proof -
  assume "n \<le> 8"
  then consider "n = 0" | "n = 1" | "n = 2" | "n = 3" | "n = 4" | "n = 5" | "n = 6"
    | "n = 7" | "n = 8"
    by linarith
  then show ?thesis
    by cases (simp_all add: encode_uint64_def eval_nat_numeral drop_bit_drop_bit)
qed

lemma decodeUint64_strict_prefix:
  assumes "strict_prefix b' (encode_uint64 v)"
  shows "decodeUint64 \<lparr>bytes = b', spare = sp\<rparr> (VUint64 old) =
           Inr (8, VUint64 (take_bit (8 * length b') v))"
proof -
  from assms obtain zs where z: "encode_uint64 v = b' @ zs" "zs \<noteq> []"
    by (auto simp: strict_prefix_def prefix_def)
  have "length (encode_uint64 v) = 8" by (simp add: encode_uint64_def)
  with z have n: "length b' < 8" by (cases zs) auto
  have t: "b' = take (length b') (encode_uint64 v)" using z by simp
  have "take 8 b' = b'" using n by simp
  then have "decodeUint64 \<lparr>bytes = b', spare = sp\<rparr> (VUint64 old) =
      Inr (8, VUint64 (word_of_nat (le_nat b')))"
    using decodeUint64_any_length[of b' sp old] by simp
  also have "word_of_nat (le_nat b') = (take_bit (8 * length b') v :: 64 word)"
    using take_encode_uint64[of "length b'" v] le_nat_low_bytes[of "length b'" v] n t by simp
  finally show ?thesis .
qed

lemma makeStructDecoder_empty_input:
  "makeStructDecoder flds \<lparr>bytes = [], spare = sp\<rparr> val = Inr (0, val)"
  by (simp add: makeStructDecoder_def slice_len_def)

text \<open>
  C3, as stated, fails: the proper prefix \<open>[08,07,06]\<close> of the encoding of
  \<open>0x0102030405060708\<close> decodes as a Uint64 without an error, to \<open>0x060708\<close>.
\<close>

theorem truncated_uint64_counterexample:
  "strict_prefix [8, 7, 6] (encode_uint64 0x0102030405060708) \<and>
   decodeUint64 \<lparr>bytes = [8, 7, 6], spare = []\<rparr> (VUint64 0) = Inr (8, VUint64 0x060708)"
  by (simp add: encode_uint64_def decodeUint64_def copy_bytes_def make_bytes_def
      slice_len_def LittleEndian_Uint64_def SetUint_def drop_bit_eq_div)

text \<open>
  C3, amended: truncated input is not reported. Decoding a proper prefix \<open>b'\<close> of the
  encoding of a Uint64 \<open>v\<close> succeeds, reports 8 bytes and yields the low
  \<open>length b'\<close> bytes of \<open>v\<close> (the prefix extended with zero bytes); and the
  struct decoder returns 0 and leaves the target as it was on the empty input, the empty
  prefix of every encoding.
\<close>

theorem truncated_input_accepted:
  "(strict_prefix b' (encode_uint64 v) \<longrightarrow>
      decodeUint64 \<lparr>bytes = b', spare = sp\<rparr> (VUint64 old) =
        Inr (8, VUint64 (take_bit (8 * length b') v))) \<and>
   makeStructDecoder flds \<lparr>bytes = [], spare = sp'\<rparr> val = Inr (0, val)"
  using decodeUint64_strict_prefix[of b' v sp old] makeStructDecoder_empty_input[of flds sp' val]
  by blast

theorem truncated_input_accepted_witness:
  "strict_prefix [8, 7, 6, 5, 4] (encode_uint64 0x0102030405060708) \<and>
   decodeUint64 \<lparr>bytes = [8, 7, 6, 5, 4], spare = []\<rparr> (VUint64 0) =
     Inr (8, VUint64 0x0405060708) \<and>
   makeStructDecoder [] \<lparr>bytes = [], spare = []\<rparr> (VStruct []) = Inr (0, VStruct [])"
proof -
  have p: "strict_prefix [8, 7, 6, 5, 4] (encode_uint64 0x0102030405060708)"
    by (simp add: encode_uint64_def drop_bit_eq_div)
  have t: "take_bit 40 (0x0102030405060708 :: 64 word) = 0x0405060708"
    by (simp add: take_bit_eq_mod)
  show ?thesis
    using p t
      truncated_input_accepted[of "[8, 7, 6, 5, 4]" "0x0102030405060708" "[]" 0 "[]" "[]"
        "VStruct []"]
    by simp
qed

section \<open>Properties of the slice decoders\<close>

text \<open>
  C2, at the input \<open>[1,0,0,0,0,0,0,0,2]\<close> for a slice of Uint64 (9 bytes, elements of
  8 bytes): the decoder makes a slice of one element, decodes it, and enters the loop a
  second time, where the slice expression \<open>input[8:16]\<close> panics, or, when the input
  has spare capacity for it, \<open>val.Index(1)\<close> panics. No error is returned.
\<close>

theorem makeBasicSliceDecoder_indivisible_panics:
  "makeBasicSliceDecoder 8 (VUint64 0) decodeUint64
     \<lparr>bytes = [1, 0, 0, 0, 0, 0, 0, 0, 2], spare = sp\<rparr> (VSlice []) = Inl Panic"
  by (simp add: makeBasicSliceDecoder_def slice_len_def MakeSlice_Copy_Set_def
      slice_expr_def slice_cap_def Index_def SetIndex_def decodeUint64_any_length)

section \<open>Properties of the entry point\<close>

text \<open>
  C8: whatever the input and whatever decoders there are, \<open>Decode\<close> with the nil
  interface as target returns the error "cannot decode into nil" (with no type), with a
  nil pointer as target it returns the error "cannot output to pointer of nil" (with the
  pointer's type), and with a target that is no pointer it returns the error "can only
  decode into pointer target" (with the target's type). None of the results depends on
  the decoders: none is looked up or run.
\<close>

theorem Decode_rejects_nil_and_non_pointer:
  "Decode cachedSSZUtils input NilInterface =
     Inl (Err \<lparr>err_msg = CannotDecodeIntoNil, err_typ = None\<rparr>) \<and>
   Decode cachedSSZUtils input (Pointer t None) =
     Inl (Err \<lparr>err_msg = CannotOutputToPointerOfNil, err_typ = Some (PtrTo t)\<rparr>) \<and>
   Decode cachedSSZUtils input (Value t v) =
     Inl (Err \<lparr>err_msg = CanOnlyDecodeIntoPointer, err_typ = Some (Plain t)\<rparr>)"
  by (simp add: Decode_def newDecodeError_def)

section \<open>Properties of pack\<close>

lemma areAllEmpty_concat: "areAllEmpty items \<Longrightarrow> concat items = []"
  by (induction items) (auto split: if_splits)

lemma concat_empty_areAllEmpty: "concat items = [] \<Longrightarrow> areAllEmpty items"
  by (induction items) auto

lemma flatten_concat: "flatten acc items = acc @ concat items"
  by (induction items arbitrary: acc) auto

lemma pad_loop_eq: "pad_loop c = c @ replicate (BytesPerChunk - length c) 0"
proof (induction c rule: pad_loop.induct)
  case (1 lastChunk)
  show ?case
  proof (cases "length lastChunk < BytesPerChunk")
    case True
    then have "BytesPerChunk - length lastChunk = Suc (BytesPerChunk - Suc (length lastChunk))"
      by simp
    with True "1.IH" show ?thesis
      by (subst pad_loop.simps) (simp add: replicate_app_Cons_same)
  next
    case False
    then show ?thesis by (subst pad_loop.simps) simp
  qed
qed

text \<open>The chunks of \<open>chunk_loop\<close>, before the last one is padded.\<close>

function raw_chunks :: "byte list \<Rightarrow> byte list list" where
  "raw_chunks bs = (if bs = [] then [] else take 32 bs # raw_chunks (drop 32 bs))"
  by pat_completeness auto
termination
  by (relation "measure length") auto

declare raw_chunks.simps [simp del]

lemma chunk_loop_raw:
  "chunk_loop bs i acc = acc @ raw_chunks (drop i bs)"
proof (induction bs i acc rule: chunk_loop.induct)
  case (1 orderedItems i chunks)
  show ?case
  proof (cases "i < length orderedItems")
    case False
    then show ?thesis
      by (subst chunk_loop.simps, subst raw_chunks.simps) simp
  next
    case True
    have t: "take ((if i + BytesPerChunk > length orderedItems
                    then length orderedItems else i + BytesPerChunk) - i) (drop i orderedItems)
             = take 32 (drop i orderedItems)"
      by (simp add: BytesPerChunk_def)
    have d: "drop (i + BytesPerChunk) orderedItems = drop 32 (drop i orderedItems)"
      by (simp add: BytesPerChunk_def add.commute)
    from True have ne: "drop i orderedItems \<noteq> []" by simp
    note ih = "1.IH"[OF True, unfolded t d]
    have r: "raw_chunks (drop i orderedItems) =
               take 32 (drop i orderedItems) # raw_chunks (drop 32 (drop i orderedItems))"
      by (subst raw_chunks.simps) (simp only: ne if_False)
    have "chunk_loop orderedItems i chunks =
            chunk_loop orderedItems (i + BytesPerChunk)
              (chunks @ [take 32 (drop i orderedItems)])"
      by (subst chunk_loop.simps) (simp only: True if_True t)
    also have "\<dots> = chunks @ raw_chunks (drop i orderedItems)"
      by (simp only: ih r d append_assoc append_Cons append_Nil)
    finally show ?thesis .
  qed
qed

lemma raw_chunks_padded:
  "bs \<noteq> [] \<Longrightarrow> raw_chunks bs \<noteq> [] \<and>
     (raw_chunks bs)[length (raw_chunks bs) - 1 :=
        pad_loop (raw_chunks bs ! (length (raw_chunks bs) - 1))] = partition32 bs"
proof (induction bs rule: partition32.induct)
  case (1 bs)
  show ?case
  proof (cases "length bs \<le> 32")
    case True
    with "1.prems" have r: "raw_chunks bs = [bs]"
      by (subst raw_chunks.simps, subst raw_chunks.simps) simp
    from True show ?thesis
      unfolding r by (subst partition32.simps) (simp add: pad_loop_eq BytesPerChunk_def)
  next
    case False
    then have ne: "drop 32 bs \<noteq> []" by simp
    from False have bne: "bs \<noteq> []" by auto
    have r: "raw_chunks bs = take 32 bs # raw_chunks (drop 32 bs)"
      using bne by (subst raw_chunks.simps) simp
    from "1.IH"[OF False ne] obtain
      a: "raw_chunks (drop 32 bs) \<noteq> []" and
      b: "(raw_chunks (drop 32 bs))[length (raw_chunks (drop 32 bs)) - 1 :=
            pad_loop (raw_chunks (drop 32 bs) ! (length (raw_chunks (drop 32 bs)) - 1))]
          = partition32 (drop 32 bs)"
      by blast
    from a obtain n where n: "length (raw_chunks (drop 32 bs)) = Suc n"
      by (cases "raw_chunks (drop 32 bs)") auto
    have p: "partition32 bs = take 32 bs # partition32 (drop 32 bs)"
      using False by (subst partition32.simps) simp
    show ?thesis
      unfolding r p using b n by simp
  qed
qed

lemma all32_partition:
  "items \<noteq> [] \<Longrightarrow> list_all (\<lambda>c. length c = 32) items \<Longrightarrow> partition32 (concat items) = items"
proof (induction items)
  case Nil
  then show ?case by simp
next
  case (Cons x xs)
  show ?case
  proof (cases "xs = []")
    case True
    with Cons.prems show ?thesis by (subst partition32.simps) simp
  next
    case False
    with Cons.prems obtain y ys where xs: "xs = y # ys" and ly: "length y = 32"
      by (cases xs) auto
    from Cons.prems have lx: "length x = 32" by simp
    have nle: "\<not> length (x @ concat xs) \<le> 32" using lx xs ly by simp
    have ih: "partition32 (concat xs) = xs" using Cons False by simp
    have "partition32 (x @ concat xs) =
            take 32 (x @ concat xs) # partition32 (drop 32 (x @ concat xs))"
      by (subst partition32.simps) (simp only: nle if_False)
    also have "\<dots> = x # xs" using lx ih by simp
    finally show ?thesis by simp
  qed
qed

lemma pack_agrees_with_pack_spec:
  assumes "serializedItems = [] \<or> length (serializedItems ! 0) \<noteq> BytesPerChunk
           \<or> list_all (\<lambda>c. length c = BytesPerChunk) serializedItems"
  shows "pack serializedItems = Inr (pack_spec serializedItems)"
proof (cases "serializedItems = [] \<or> areAllEmpty serializedItems")
  case True
  then have c: "concat serializedItems = []" using areAllEmpty_concat by auto
  have "partition32 [] = [make_bytes BytesPerChunk]"
    by (subst partition32.simps) (simp add: make_bytes_def BytesPerChunk_def)
  then have "pack_spec serializedItems = [make_bytes BytesPerChunk]"
    unfolding pack_spec_def c .
  with True show ?thesis by (auto simp: pack_def)
next
  case False
  then have ne: "serializedItems \<noteq> []" and nae: "\<not> areAllEmpty serializedItems" by auto
  from nae have cne: "concat serializedItems \<noteq> []" using concat_empty_areAllEmpty by blast
  show ?thesis
  proof (cases "length (serializedItems ! 0) = BytesPerChunk")
    case True
    with assms ne have "list_all (\<lambda>c. length c = 32) serializedItems"
      by (simp add: BytesPerChunk_def)
    with ne have "pack_spec serializedItems = serializedItems"
      unfolding pack_spec_def by (rule all32_partition)
    with True ne nae show ?thesis by (simp add: pack_def)
  next
    case False
    have c: "chunk_loop (concat serializedItems) 0 [] = raw_chunks (concat serializedItems)"
      by (simp add: chunk_loop_raw)
    from raw_chunks_padded[OF cne] False ne nae show ?thesis
      by (simp add: pack_def Let_def c flatten_concat pack_spec_def)
  qed
qed


text \<open>
  C10: on a non-empty sequence of byte runs whose first run has exactly 32 bytes,
  \<open>pack\<close> returns the sequence itself, whatever the lengths of the other runs. The
  witness has a second run of 3 bytes and an empty third run, which come back as they
  are: the chunks returned are not all 32 bytes long.
\<close>

theorem pack_first_run_32:
  "serializedItems \<noteq> [] \<Longrightarrow> length (serializedItems ! 0) = BytesPerChunk \<Longrightarrow>
     pack serializedItems = Inr serializedItems"
  by (cases serializedItems) (auto simp: pack_def BytesPerChunk_def)

theorem pack_first_run_32_witness:
  "[replicate 32 7, [1, 2, 3], []] \<noteq> ([] :: byte list list) \<and>
   length ([replicate 32 7, [1, 2, 3], []] ! 0 :: byte list) = BytesPerChunk \<and>
   pack [replicate 32 7, [1, 2, 3], []] = Inr [replicate 32 7, [1, 2, 3], []] \<and>
   length ([replicate 32 7, [1, 2, 3], []] ! 1 :: byte list) \<noteq> BytesPerChunk"
  using pack_first_run_32[of "[replicate 32 7, [1, 2, 3], []]"]
  by (simp add: BytesPerChunk_def)


section \<open>Properties of Merkleization\<close>

text \<open>
  C4: for every chunk \<open>c\<close> of 32 bytes and every hash function, \<open>merkleize\<close> of the
  single-chunk list \<open>[c]\<close> is \<open>c\<close>. So is \<open>bitwiseMerkleize\<close> of \<open>[c]\<close> with
  count 1 and limit 1, for every external \<open>Merkleize\<close> that, on one leaf and limit 1,
  returns the copy of leaf 0 as its root: the count passes the limit check and the leaf
  handed over at index 0 is \<open>c\<close>.
\<close>

theorem merkleize_single_chunk:
  "length c = BytesPerChunk \<Longrightarrow>
     merkleize H [c] = Inr c \<and>
     ((\<forall>leaf. Merkleize H 1 1 leaf = map_option copy_root (leaf 0)) \<longrightarrow>
        bitwiseMerkleize Merkleize H [c] 1 1 = Inr c)"
  by (simp add: merkleize_def bitwiseMerkleize_def copy_root_def BytesPerChunk_def)

theorem merkleize_single_chunk_witness:
  "length (replicate 32 5 :: byte list) = BytesPerChunk \<and>
   merkleize (\<lambda>bs. take 32 bs) [replicate 32 5] = Inr (replicate 32 5) \<and>
   bitwiseMerkleize (\<lambda>H count limit leaf. map_option copy_root (leaf 0)) (\<lambda>bs. take 32 bs)
     [replicate 32 5] 1 1 = Inr (replicate 32 5)"
  using merkleize_single_chunk[of "replicate 32 5" "\<lambda>bs. take 32 bs"
      "\<lambda>H count limit leaf. map_option copy_root (leaf 0)"]
  by (simp add: BytesPerChunk_def)

text \<open>
  C5: \<open>bitwiseMerkleize\<close> returns the over-limit error whenever the count is above the
  limit, whatever the chunks, and never returns it when the count is at most the limit.
\<close>

theorem bitwiseMerkleize_over_limit:
  "(limit < count \<longrightarrow>
      bitwiseMerkleize Merkleize H chunks count limit = Inl (Err OverLimit)) \<and>
   (count \<le> limit \<longrightarrow>
      bitwiseMerkleize Merkleize H chunks count limit \<noteq> Inl (Err OverLimit))"
  by (auto simp: bitwiseMerkleize_def Let_def split: option.splits)

theorem bitwiseMerkleize_over_limit_witness:
  "(1 :: 64 word) < 2 \<and>
   bitwiseMerkleize (\<lambda>H count limit leaf. leaf 0) (\<lambda>bs. take 32 bs) [] 2 1 =
     Inl (Err OverLimit) \<and>
   (1 :: 64 word) \<le> 1 \<and>
   bitwiseMerkleize (\<lambda>H count limit leaf. leaf 0) (\<lambda>bs. take 32 bs) [replicate 32 0] 1 1
     \<noteq> Inl (Err OverLimit)"
  using bitwiseMerkleize_over_limit[of 1 2 "\<lambda>H count limit leaf. leaf 0" "\<lambda>bs. take 32 bs" "[]"]
    bitwiseMerkleize_over_limit[of 1 1 "\<lambda>H count limit leaf. leaf 0" "\<lambda>bs. take 32 bs"
      "[replicate 32 0]"]
  by simp

end
